theory Spec2Isabelle
  imports Main "HOL-Library.Word"
begin

section \<open>C strings and the library functions used by \<open>status_match\<close>\<close>

text \<open>
  A C string is modelled by the list of its characters before the terminating NUL; a
  pointer into the string is the suffix that starts there, and a NULL pointer is
  \<open>None\<close>.  Reading through a pointer that stands on the terminator yields NUL.
\<close>

definition NUL :: char where
  "NUL = CHR 0x00"

fun deref :: "string \<Rightarrow> char" where
  "deref [] = NUL"
| "deref (c # cs) = c"

definition strlen :: "string \<Rightarrow> nat" where
  "strlen s = length s"

text \<open>\<open>strchr s c\<close> for a character \<open>c\<close> other than NUL: the suffix at the first \<open>c\<close>.\<close>

fun strchr :: "string \<Rightarrow> char \<Rightarrow> string option" where
  "strchr [] c = None"
| "strchr (x # xs) c = (if x = c then Some (x # xs) else strchr xs c)"

text \<open>
  \<open>strncmp a b n\<close> compares at most \<open>n\<close> characters and stops at a terminator that
  both strings share; the result is zero exactly when no difference was met.
\<close>

fun strncmp :: "string \<Rightarrow> string \<Rightarrow> nat \<Rightarrow> int" where
  "strncmp a b 0 = 0"
| "strncmp [] [] (Suc n) = 0"
| "strncmp [] (y # ys) (Suc n) = - int (of_char y)"
| "strncmp (x # xs) [] (Suc n) = int (of_char x)"
| "strncmp (x # xs) (y # ys) (Suc n) =
     (if x = y then strncmp xs ys n else int (of_char x) - int (of_char y))"

definition isdigit :: "char \<Rightarrow> bool" where
  "isdigit c = (let n = (of_char c :: nat) in 48 \<le> n \<and> n \<le> 57)"

definition isspace :: "char \<Rightarrow> bool" where
  "isspace c = (let n = (of_char c :: nat) in n = 32 \<or> (9 \<le> n \<and> n \<le> 13))"

definition LONG_MAX :: int where
  "LONG_MAX = 2 ^ 63 - 1"

definition LONG_MIN :: int where
  "LONG_MIN = - (2 ^ 63)"

definition digit_val :: "char \<Rightarrow> int" where
  "digit_val c = int (of_char c) - 48"

definition digits_val :: "string \<Rightarrow> int" where
  "digits_val ds = foldl (\<lambda>a c. 10 * a + digit_val c) 0 ds"

text \<open>
  \<open>strtol s &endptr 10\<close> on a 64-bit \<open>long\<close>: white space is skipped, a sign is
  accepted, the longest run of decimal digits is converted and a value out of range is
  clamped.  The result is the value together with \<open>endptr\<close>; with no digit at all the
  value is 0 and \<open>endptr\<close> is the string itself.
\<close>

definition strtol :: "string \<Rightarrow> int \<times> string" where
  "strtol s =
     (let s1 = dropWhile isspace s;
          neg = (deref s1 = CHR ''-'');
          s2 = (if deref s1 = CHR ''-'' \<or> deref s1 = CHR ''+'' then tl s1 else s1);
          ds = takeWhile isdigit s2;
          v = (if neg then - digits_val ds else digits_val ds)
      in if ds = [] then (0, s)
         else (max LONG_MIN (min LONG_MAX v), dropWhile isdigit s2))"

section \<open>Criteria evaluation: \<open>status_match\<close>\<close>

text \<open>
  The result is the C \<open>int\<close> the function returns: 1 for a match, 0 for no match
  and -1 for a criteria string that is refused.
\<close>

definition at_end :: "string \<Rightarrow> bool" where
  "at_end endptr = (deref endptr = NUL \<or> deref endptr = CHR '','')"

function status_match :: "int \<Rightarrow> string option \<Rightarrow> int" where
  "status_match status None = 1"
| "status_match status (Some criteria) =
     (let next = strchr criteria CHR '','';
          len = (case next of Some nx \<Rightarrow> length criteria - length nx
                 | None \<Rightarrow> strlen criteria)
      in if strncmp criteria ''success'' len = 0 \<or> strncmp criteria ''true'' len = 0
         then of_bool (status = 0)
         else if strncmp criteria ''fail'' len = 0 \<or> strncmp criteria ''false'' len = 0
         then of_bool (status \<noteq> 0)
         else if \<not> isdigit (deref criteria) then - 1
         else let r1 = fst (strtol criteria); endptr = snd (strtol criteria)
           in if at_end endptr then of_bool (status = r1)
              else if deref endptr \<noteq> CHR ''-'' then - 1
              else let endptr1 = tl endptr
                in if \<not> isdigit (deref endptr1) then - 1
                   else let r2 = fst (strtol endptr1); endptr2 = snd (strtol endptr1)
                     in if at_end endptr2 then of_bool (status \<ge> r1 \<and> status \<le> r2)
                        else if deref endptr2 \<noteq> NUL \<and> deref endptr2 \<noteq> CHR '',''
                        then - 1
                        else status_match status next)"
  by pat_completeness auto
termination
  by (relation "measure (\<lambda>(status, c). case c of None \<Rightarrow> 0 | Some s \<Rightarrow> Suc (length s))")
     (auto simp: at_end_def)

section \<open>The pump\<close>

type_synonym byte = "8 word"

definition STDIN_FD :: nat where
  "STDIN_FD = 0"

definition STDOUT_FD :: nat where
  "STDOUT_FD = 1"

definition READ_FD :: nat where
  "READ_FD = 0"

definition WRITE_FD :: nat where
  "WRITE_FD = 1"

definition OFFSET :: "nat \<Rightarrow> nat \<Rightarrow> nat" where
  "OFFSET X Y = X * 2 + Y"

definition PUMPS :: nat where
  "PUMPS = 2"

definition BUFFER_SIZE :: nat where
  "BUFFER_SIZE = 100 * 1024"

text \<open>
  \<open>struct pump_t\<close>.  The field \<open>base\<close> holds the bytes stored so far in the
  allocated block, \<open>len\<close> their number and \<open>offset\<close> the number already written
  to the sink.  The one-bit fields are booleans.
\<close>

record pump_t =
  base :: "byte list"
  len :: nat
  offset :: nat
  read_closed :: bool
  write_closed :: bool
  exit_on_close :: bool
  send_eof :: bool

datatype poll_flag = POLLIN | POLLOUT | POLLERR | POLLHUP | POLLNVAL

text \<open>
  \<open>struct pollfd\<close> without its descriptor number: the entry at position
  \<open>OFFSET i READ_FD\<close> stands for the source of stream \<open>i\<close> and the entry at
  \<open>OFFSET i WRITE_FD\<close> for its sink.
\<close>

record pollfd =
  events :: "poll_flag set"
  revents :: "poll_flag set"

datatype read_result = ReadErr | ReadData "byte list"

datatype write_result = WriteErr | WriteAccept nat

text \<open>
  What the operating system does during one turn of the loop: whether \<open>poll\<close>
  fails, the condition of each of the four descriptors, and for each stream whether
  \<open>realloc\<close> succeeds, what a \<open>read\<close> of its source delivers (no data is end of
  file) and how many bytes a \<open>write\<close> to its sink accepts.
\<close>

record io_event =
  poll_fails :: bool
  ready :: "nat \<Rightarrow> poll_flag set"
  alloc_ok :: "nat \<Rightarrow> bool"
  rd :: "nat \<Rightarrow> read_result"
  wr :: "nat \<Rightarrow> write_result"

datatype diag =
  CouldNotPoll | OutOfMemory | CouldNotRead | CouldNotWrite
  | CouldNotPipe | CouldNotFork | CouldNotExecute | WaitpidFailed
  | BackingOff int int | TryingAgain int

text \<open>
  The memory \<open>pump\<close> works on: the two streams, the \<open>pollfd\<close> array, the bytes
  written so far to the sink of each stream, and the messages printed.
\<close>

record pump_state =
  pumps :: "pump_t list"
  fds :: "pollfd list"
  sent :: "byte list list"
  msgs :: "diag list"

text \<open>The first \<open>for\<close> loop of \<open>pump\<close>: arm the descriptors and compute \<open>stay\<close>.\<close>

fun arm :: "nat list \<Rightarrow> pump_t list \<Rightarrow> pollfd list \<Rightarrow> bool \<Rightarrow> bool \<times> pollfd list" where
  "arm [] ps fs stay = (stay, fs)"
| "arm (i # is) ps fs stay =
     (let fs1 = fs[OFFSET i READ_FD := (fs ! OFFSET i READ_FD)\<lparr>events := {}\<rparr>];
          fs2 = fs1[OFFSET i WRITE_FD := (fs1 ! OFFSET i WRITE_FD)\<lparr>events := {}\<rparr>];
          rarm = (\<not> read_closed (ps ! i));
          fs3 = (if rarm then fs2[OFFSET i READ_FD := (fs2 ! OFFSET i READ_FD)\<lparr>events := {POLLIN}\<rparr>]
                 else fs2);
          stay1 = (if rarm then True else stay);
          warm = (\<not> write_closed (ps ! i)
                  \<and> (send_eof (ps ! i) \<or> len (ps ! i) > offset (ps ! i)));
          fs4 = (if warm then fs3[OFFSET i WRITE_FD := (fs3 ! OFFSET i WRITE_FD)\<lparr>events := {POLLOUT}\<rparr>]
                 else fs3);
          stay2 = (if warm then True else stay1)
      in if read_closed (ps ! i) \<and> exit_on_close (ps ! i) then (False, fs4)
         else arm is ps fs4 stay2)"

text \<open>
  \<open>poll\<close> with an infinite timeout: it reports the requested conditions that hold,
  and errors, hang-ups and invalid descriptors whether requested or not.
\<close>

definition poll :: "io_event \<Rightarrow> pollfd list \<Rightarrow> int \<times> pollfd list" where
  "poll ev fs =
     (if poll_fails ev then (- 1, fs)
      else let fs' = map (\<lambda>k. (fs ! k)\<lparr>revents :=
                       ready ev k \<inter> (events (fs ! k) \<union> {POLLERR, POLLHUP, POLLNVAL})\<rparr>)
                     [0..<length fs]
           in (int (length (filter (\<lambda>f. revents f \<noteq> {}) fs')), fs'))"

text \<open>The four parts of the body of the second \<open>for\<close> loop, for stream \<open>i\<close>.\<close>

definition on_pollin :: "io_event \<Rightarrow> nat \<Rightarrow> pump_state \<Rightarrow> int \<times> pump_state" where
  "on_pollin ev i st =
     (if POLLIN \<in> revents (fds st ! OFFSET i READ_FD) then
        if \<not> alloc_ok ev i then (- 1, st\<lparr>msgs := msgs st @ [OutOfMemory]\<rparr>)
        else (case rd ev i of
                ReadErr \<Rightarrow> (- 1, st\<lparr>msgs := msgs st @ [CouldNotRead]\<rparr>)
              | ReadData d \<Rightarrow>
                  let p = pumps st ! i; chunk = take BUFFER_SIZE d
                  in if chunk = []
                     then (0, st\<lparr>pumps := (pumps st)[i := p\<lparr>read_closed := True, send_eof := True\<rparr>]\<rparr>)
                     else (0, st\<lparr>pumps := (pumps st)[i := p\<lparr>base := base p @ chunk,
                                                              len := len p + length chunk\<rparr>]\<rparr>))
      else (0, st))"

definition on_hangup :: "nat \<Rightarrow> pump_state \<Rightarrow> pump_state" where
  "on_hangup i st =
     (if revents (fds st ! OFFSET i READ_FD) \<inter> {POLLHUP, POLLERR, POLLNVAL} \<noteq> {}
      then st\<lparr>pumps := (pumps st)[i := (pumps st ! i)\<lparr>read_closed := True, send_eof := True\<rparr>]\<rparr>
      else st)"

definition on_pollout :: "io_event \<Rightarrow> nat \<Rightarrow> pump_state \<Rightarrow> int \<times> pump_state" where
  "on_pollout ev i st =
     (if POLLOUT \<in> revents (fds st ! OFFSET i WRITE_FD) then
        (case wr ev i of
           WriteErr \<Rightarrow> (- 1, st\<lparr>msgs := msgs st @ [CouldNotWrite]\<rparr>)
         | WriteAccept k \<Rightarrow>
             let p = pumps st ! i;
                 num = min k (len p - offset p);
                 out = take num (drop (offset p) (take (len p) (base p)));
                 p1 = p\<lparr>offset := offset p + num\<rparr>;
                 p2 = (if read_closed p1 \<and> offset p1 = len p1
                       then p1\<lparr>write_closed := True\<rparr> else p1)
             in (0, st\<lparr>pumps := (pumps st)[i := p2],
                       sent := (sent st)[i := sent st ! i @ out]\<rparr>))
      else (0, st))"

definition on_sink_error :: "nat \<Rightarrow> pump_state \<Rightarrow> pump_state" where
  "on_sink_error i st =
     (if revents (fds st ! OFFSET i WRITE_FD) \<inter> {POLLERR, POLLNVAL} \<noteq> {}
      then st\<lparr>pumps := (pumps st)[i := (pumps st ! i)\<lparr>write_closed := True\<rparr>]\<rparr>
      else st)"

definition serve_one :: "io_event \<Rightarrow> nat \<Rightarrow> pump_state \<Rightarrow> int \<times> pump_state" where
  "serve_one ev i st =
     (case on_pollin ev i st of (r1, st1) \<Rightarrow>
        if r1 \<noteq> 0 then (r1, st1)
        else (case on_pollout ev i (on_hangup i st1) of (r2, st2) \<Rightarrow>
                if r2 \<noteq> 0 then (r2, st2) else (0, on_sink_error i st2)))"

text \<open>The second \<open>for\<close> loop; an error leaves the function at once.\<close>

fun serve :: "io_event \<Rightarrow> nat list \<Rightarrow> pump_state \<Rightarrow> int \<times> pump_state" where
  "serve ev [] st = (0, st)"
| "serve ev (i # is) st =
     (case serve_one ev i st of (r, st1) \<Rightarrow>
        if r \<noteq> 0 then (r, st1) else serve ev is st1)"

text \<open>
  \<open>pump\<close>.  Each turn of the \<open>while (1)\<close> loop that reaches \<open>poll\<close> consumes one
  event of the environment; with no event left \<open>poll\<close> never returns and neither
  does \<open>pump\<close>, which is the result \<open>None\<close>.  Otherwise the result is the value
  returned, the memory and the events not consumed.
\<close>

fun pump :: "io_event list \<Rightarrow> pump_state \<Rightarrow> (int \<times> pump_state \<times> io_event list) option" where
  "pump env st =
     (case arm [0..<PUMPS] (pumps st) (fds st) False of (stay, fs) \<Rightarrow>
        if \<not> stay then Some (0, st\<lparr>fds := fs\<rparr>, env)
        else (case env of
                [] \<Rightarrow> None
              | ev # env' \<Rightarrow>
                  (case poll ev fs of (n, fs') \<Rightarrow>
                     if n < 0 then Some (- 1, st\<lparr>fds := fs', msgs := msgs st @ [CouldNotPoll]\<rparr>, env')
                     else (case serve ev [0..<PUMPS] (st\<lparr>fds := fs'\<rparr>) of (r, st') \<Rightarrow>
                             if r \<noteq> 0 then Some (- 1, st', env') else pump env' st'))))"

declare pump.simps [simp del]

section \<open>The retry loop of \<open>main\<close>\<close>

definition EXIT_FAILURE :: int where
  "EXIT_FAILURE = 1"

definition EX_OSERR :: int where
  "EX_OSERR = 71"

text \<open>
  The status word that \<open>waitpid\<close> stores, by what its macros read from it: a normal
  exit with the low eight bits of the exit code, a death by signal with the seven bits
  of the signal number, or neither.
\<close>

datatype wstatus = WExited "8 word" | WSignaled "7 word" | WOther

fun WIFEXITED :: "wstatus \<Rightarrow> bool" where
  "WIFEXITED (WExited c) = True"
| "WIFEXITED w = False"

fun WEXITSTATUS :: "wstatus \<Rightarrow> int" where
  "WEXITSTATUS (WExited c) = uint c"
| "WEXITSTATUS w = 0"

fun WIFSIGNALED :: "wstatus \<Rightarrow> bool" where
  "WIFSIGNALED (WSignaled n) = True"
| "WIFSIGNALED w = False"

fun WTERMSIG :: "wstatus \<Rightarrow> int" where
  "WTERMSIG (WSignaled n) = uint n"
| "WTERMSIG w = 0"

text \<open>
  One call of \<open>waitpid\<close>: interrupted (\<open>errno\<close> is \<open>EINTR\<close>), failed with another
  error, or returning the child.
\<close>

datatype wait_event = WaitIntr | WaitError | WaitChild wstatus

datatype reaped = WaitFailure | Reaped wstatus

text \<open>
  The \<open>do ... while (w != f)\<close> loop; \<open>None\<close> when \<open>waitpid\<close> is interrupted
  for ever or never returns.
\<close>

fun waitpid_loop :: "wait_event list \<Rightarrow> reaped option" where
  "waitpid_loop [] = None"
| "waitpid_loop (WaitIntr # ws) = waitpid_loop ws"
| "waitpid_loop (WaitError # ws) = Some WaitFailure"
| "waitpid_loop (WaitChild s # ws) = Some (Reaped s)"

text \<open>
  \<open>fork\<close> fails, or returns in the child (where \<open>execvp\<close> then succeeds or not), or
  returns in the parent.
\<close>

datatype fork_result = ForkError | InChild bool | InParent

text \<open>What the operating system does during one turn of the \<open>while (times)\<close> loop.\<close>

record attempt_env =
  pipe_fails :: bool
  fork_res :: fork_result
  io :: "io_event list"
  waits :: "wait_event list"

datatype err_item = Message diag | Captured "byte list"

text \<open>
  The variables of \<open>main\<close> after the options are read (\<open>streams\<close> is the array
  \<open>pumps\<close>, \<open>times_left\<close> the variable \<open>times\<close>), and what the process has done
  so far: the bytes written to standard output and to standard error, the bytes
  written to the standard input of each child, the number of children created and the
  seconds slept.
\<close>

record main_state =
  repeat_until :: "string option"
  repeat_while :: "string option"
  delay :: int
  times_left :: int
  status :: int
  streams :: "pump_t list"
  stdout :: "byte list"
  stderr :: "err_item list"
  child_stdin :: "byte list list"
  forks :: nat
  slept :: int

definition no_pump :: pump_t where
  "no_pump = \<lparr>base = [], len = 0, offset = 0, read_closed = False, write_closed = False,
              exit_on_close = False, send_eof = False\<rparr>"

definition start :: "string option \<Rightarrow> string option \<Rightarrow> int \<Rightarrow> int \<Rightarrow> main_state" where
  "start u w d t =
     \<lparr>repeat_until = u, repeat_while = w, delay = d, times_left = t, status = 0,
      streams = replicate PUMPS no_pump, stdout = [], stderr = [], child_stdin = [],
      forks = 0, slept = 0\<rparr>"

text \<open>The condition under which the captured output goes to standard output.\<close>

definition stop_now :: "main_state \<Rightarrow> int \<Rightarrow> bool" where
  "stop_now st s =
     ((repeat_until st \<noteq> None \<and> status_match s (repeat_until st) \<noteq> 0)
      \<or> (repeat_while st \<noteq> None \<and> status_match s (repeat_while st) = 0)
      \<or> (repeat_until st = None \<and> repeat_while st = None \<and> s \<noteq> 0))"

text \<open>What \<open>main\<close> hands to \<open>pump\<close>, after closing the sink of the second stream.\<close>

definition pump_input :: "main_state \<Rightarrow> pump_state" where
  "pump_input st =
     (let ps1 = (streams st)[STDOUT_FD := (streams st ! STDOUT_FD)\<lparr>write_closed := True\<rparr>];
          ps2 = ps1[STDOUT_FD := (ps1 ! STDOUT_FD)\<lparr>exit_on_close := True\<rparr>]
      in \<lparr>pumps = ps2, fds = replicate (PUMPS * 2) \<lparr>events = {}, revents = {}\<rparr>,
          sent = replicate PUMPS [], msgs = []\<rparr>)"

text \<open>
  The state of \<open>main\<close> when \<open>pump\<close> has returned: the sink of the first stream is
  the standard input of the child just created, the sink of the second is standard
  output.
\<close>

definition after_pump :: "main_state \<Rightarrow> pump_state \<Rightarrow> main_state" where
  "after_pump st pst =
     st\<lparr>streams := pumps pst,
        child_stdin := child_stdin st @ [sent pst ! STDIN_FD],
        stdout := stdout st @ sent pst ! STDOUT_FD,
        stderr := stderr st @ map Message (msgs pst),
        forks := Suc (forks st)\<rparr>"

datatype control = Break | Continue | NoReturn

text \<open>The part of the loop body that follows the wait for the child.\<close>

definition decide :: "reaped \<Rightarrow> main_state \<Rightarrow> control \<times> main_state" where
  "decide w st =
     (case w of
        WaitFailure \<Rightarrow>
          (Break, st\<lparr>status := EXIT_FAILURE, stderr := stderr st @ [Message WaitpidFailed]\<rparr>)
      | Reaped ws \<Rightarrow>
          if WIFEXITED ws then
            let s = WEXITSTATUS ws;
                out = take (len (streams st ! STDOUT_FD)) (base (streams st ! STDOUT_FD))
            in if stop_now st s
               then (Break, st\<lparr>status := s, stdout := stdout st @ out\<rparr>)
               else (Continue,
                     st\<lparr>status := s,
                        stderr := stderr st @ [Captured out,
                          Message (if delay st \<noteq> 0 then BackingOff s (delay st)
                                   else TryingAgain s)],
                        slept := slept st + delay st,
                        times_left := (if times_left st > 0 then times_left st - 1
                                       else times_left st)\<rparr>)
          else if WIFSIGNALED ws then (Break, st\<lparr>status := WTERMSIG ws + 128\<rparr>)
          else (Break, st\<lparr>status := EX_OSERR\<rparr>))"

text \<open>The body of the \<open>while (times)\<close> loop.\<close>

definition attempt :: "attempt_env \<Rightarrow> main_state \<Rightarrow> control \<times> main_state" where
  "attempt e st =
     (if pipe_fails e
      then (Break, st\<lparr>status := EXIT_FAILURE, stderr := stderr st @ [Message CouldNotPipe]\<rparr>)
      else (case fork_res e of
              ForkError \<Rightarrow>
                (Break, st\<lparr>status := EXIT_FAILURE, stderr := stderr st @ [Message CouldNotFork]\<rparr>)
            | InChild exec_ok \<Rightarrow>
                if exec_ok then (NoReturn, st)
                else (Break, st\<lparr>status := EXIT_FAILURE,
                                stderr := stderr st @ [Message CouldNotExecute]\<rparr>)
            | InParent \<Rightarrow>
                (case pump (io e) (pump_input st) of
                   None \<Rightarrow> (NoReturn, st)
                 | Some (r, pst, rest) \<Rightarrow>
                     if r \<noteq> 0 then (Break, (after_pump st pst)\<lparr>status := EXIT_FAILURE\<rparr>)
                     else let st1 = after_pump st pst;
                              st2 = st1\<lparr>streams := (streams st1)[STDIN_FD :=
                                           (streams st1 ! STDIN_FD)\<lparr>offset := 0\<rparr>]\<rparr>
                          in (case waitpid_loop (waits e) of
                                None \<Rightarrow> (NoReturn, st2)
                              | Some w \<Rightarrow> decide w st2))))"

text \<open>
  The loop and the value \<open>main\<close> returns, which is the final \<open>status\<close>.  Each turn
  consumes the description of one attempt; the result is \<open>None\<close> when the process
  never leaves the loop within the attempts described.
\<close>

fun main_loop :: "attempt_env list \<Rightarrow> main_state \<Rightarrow> main_state option" where
  "main_loop envs st =
     (if times_left st = 0 then Some st
      else (case envs of
              [] \<Rightarrow> None
            | e # es \<Rightarrow>
                (case attempt e st of
                   (Break, st') \<Rightarrow> Some st'
                 | (Continue, st') \<Rightarrow> main_loop es st'
                 | (NoReturn, st') \<Rightarrow> None)))"

declare main_loop.simps [simp del]

text \<open>
  A stream is well formed when \<open>len\<close> is the number of bytes stored and
  \<open>offset\<close> does not exceed it, so that \<open>len - offset\<close> in \<open>pump\<close> is
  the number of bytes not yet written.
\<close>

definition stream_ok :: "pump_t \<Rightarrow> bool" where
  "stream_ok p = (offset p \<le> len p \<and> len p = length (base p))"

section \<open>Concrete runs\<close>

text \<open>
  An event in which \<open>poll\<close> succeeds, no descriptor has anything to report, a
  \<open>read\<close> would meet end of file and a \<open>write\<close> would accept nothing.
\<close>

definition quiet :: io_event where
  "quiet = \<lparr>poll_fails = False, ready = (\<lambda>k. {}), alloc_ok = (\<lambda>i. True),
            rd = (\<lambda>i. ReadData []), wr = (\<lambda>i. WriteAccept 0)\<rparr>"

text \<open>
  A first child: the invoker's standard input delivers the byte 0x58 and the child
  prints the byte 0x41; then the child takes the byte from its standard input and
  closes its standard output.  It exits with code 1.
\<close>

definition first_io :: "io_event list" where
  "first_io =
     [quiet\<lparr>ready := (\<lambda>k. if k = 0 \<or> k = 2 then {POLLIN} else {}),
            rd := (\<lambda>i. if i = 0 then ReadData [0x58] else ReadData [0x41])\<rparr>,
      quiet\<lparr>ready := (\<lambda>k. if k = 1 then {POLLOUT} else if k = 2 then {POLLHUP} else {}),
            wr := (\<lambda>i. WriteAccept 1)\<rparr>]"

definition first_try :: attempt_env where
  "first_try = \<lparr>pipe_fails = False, fork_res = InParent, io = first_io,
                waits = [WaitChild (WExited 1)]\<rparr>"

text \<open>
  A second child: it is ready to take a byte from its standard input and prints the
  byte 0x42, then closes its standard output.  It exits with code 0.
\<close>

definition second_io :: "io_event list" where
  "second_io =
     [quiet\<lparr>ready := (\<lambda>k. if k = 1 then {POLLOUT} else if k = 2 then {POLLIN} else {}),
            rd := (\<lambda>i. ReadData [0x42]), wr := (\<lambda>i. WriteAccept 1)\<rparr>,
      quiet\<lparr>ready := (\<lambda>k. if k = 2 then {POLLHUP} else {})\<rparr>]"

definition second_try :: attempt_env where
  "second_try = \<lparr>pipe_fails = False, fork_res = InParent, io = second_io,
                 waits = [WaitChild (WExited 0)]\<rparr>"

text \<open>The options \<open>--until=success --delay=0\<close> with no limit on the attempts.\<close>

definition defaults :: main_state where
  "defaults = start (Some ''success'') None 0 (- 1)"

text \<open>The state of \<open>main\<close> after the first child, and after the second.\<close>

definition after_first :: main_state where
  "after_first =
     \<lparr>repeat_until = Some ''success'', repeat_while = None, delay = 0,
      times_left = - 1, status = 1,
      streams =
        [\<lparr>base = [0x58], len = 1, offset = 0, read_closed = False,
           write_closed = False, exit_on_close = False, send_eof = False\<rparr>,
         \<lparr>base = [0x41], len = 1, offset = 0, read_closed = True,
           write_closed = True, exit_on_close = True, send_eof = True\<rparr>],
      stdout = [], stderr = [Captured [0x41], Message (TryingAgain 1)],
      child_stdin = [[0x58]], forks = 1, slept = 0\<rparr>"

definition after_second :: main_state where
  "after_second =
     after_first\<lparr>status := 0, stdout := [0x41], child_stdin := [[0x58], []], forks := 2\<rparr>"

text \<open>A child that closes its standard output at once.\<close>

definition hangup_io :: "io_event list" where
  "hangup_io = [quiet\<lparr>ready := (\<lambda>k. if k = 2 then {POLLHUP} else {})\<rparr>]"

text \<open>Such a child killed by signal 9, and one that cannot be reaped.\<close>

definition killed_try :: attempt_env where
  "killed_try = \<lparr>pipe_fails = False, fork_res = InParent, io = hangup_io,
                 waits = [WaitIntr, WaitChild (WSignaled 9)]\<rparr>"

definition unreaped_try :: attempt_env where
  "unreaped_try = \<lparr>pipe_fails = False, fork_res = InParent, io = hangup_io,
                   waits = [WaitIntr, WaitError]\<rparr>"

text \<open>
  A child that closes its standard input before reading: the invoker's standard input
  delivers the byte 0x58 while \<open>poll\<close> reports an error on the pipe to the child.
\<close>

definition sink_error_io :: "io_event list" where
  "sink_error_io =
     [quiet\<lparr>ready := (\<lambda>k. if k = 0 then {POLLIN} else if k = 1 then {POLLERR} else {}),
            rd := (\<lambda>i. ReadData [0x58])\<rparr>,
      quiet\<lparr>ready := (\<lambda>k. if k = 2 then {POLLHUP} else {})\<rparr>]"

text \<open>
  The memory of \<open>pump\<close> after \<open>poll\<close> when the invoker's standard input has
  ended with one byte captured and the pipe to the child is ready for writing; and a
  memory in which both streams are closed at both ends.
\<close>

definition last_byte_state :: pump_state where
  "last_byte_state =
     \<lparr>pumps =
        [\<lparr>base = [0x58], len = 1, offset = 0, read_closed = True,
           write_closed = False, exit_on_close = False, send_eof = True\<rparr>,
         \<lparr>base = [], len = 0, offset = 0, read_closed = False,
           write_closed = True, exit_on_close = True, send_eof = False\<rparr>],
      fds =
        [\<lparr>events = {}, revents = {}\<rparr>, \<lparr>events = {POLLOUT}, revents = {POLLOUT}\<rparr>,
         \<lparr>events = {POLLIN}, revents = {}\<rparr>, \<lparr>events = {}, revents = {}\<rparr>],
      sent = [[], []], msgs = []\<rparr>"

definition closed_state :: pump_state where
  "closed_state =
     \<lparr>pumps =
        [\<lparr>base = [0x58], len = 1, offset = 1, read_closed = True,
           write_closed = True, exit_on_close = False, send_eof = True\<rparr>,
         \<lparr>base = [0x41], len = 1, offset = 0, read_closed = True,
           write_closed = True, exit_on_close = False, send_eof = True\<rparr>],
      fds = replicate (PUMPS * 2) \<lparr>events = {}, revents = {}\<rparr>,
      sent = [[], []], msgs = []\<rparr>"

section \<open>Evaluation on concrete data\<close>

lemma list_update_Cons_numeral:
  "(x # xs)[numeral v := y] = x # xs[numeral v - 1 := y]"
  by (simp add: numeral_eq_Suc)

lemma replicate_numeral:
  "replicate (numeral v) x = x # replicate (numeral v - 1) x"
  by (simp add: numeral_eq_Suc)

lemma upt_0_2: "[0..<2] = [0, Suc 0]"
  by (simp add: upt_rec)

lemmas pump_consts =
  STDIN_FD_def STDOUT_FD_def READ_FD_def WRITE_FD_def OFFSET_def PUMPS_def BUFFER_SIZE_def
  list_update_Cons_numeral replicate_numeral upt_0_2

lemmas pump_steps =
  Let_def poll_def serve_one_def on_pollin_def on_hangup_def on_pollout_def on_sink_error_def

section \<open>Properties of \<open>status_match\<close>\<close>

lemma status_match_success_1: "status_match 1 (Some ''success'') = 0"
  by (simp add: strlen_def)

lemma status_match_success_0: "status_match 0 (Some ''success'') = 1"
  by (simp add: strlen_def)

text \<open>
  Whatever follows a first token \<open>success\<close> is never looked at: the result is that
  of \<open>success\<close> alone.
\<close>

lemma status_match_after_success:
  "status_match s (Some (''success,'' @ rest)) = of_bool (s = 0)"
proof -
  have n: "strchr (''success,'' @ rest) CHR '','' = Some (CHR '','' # rest)"
    by simp
  have l: "length (''success,'' @ rest) - length (CHR '','' # rest)
           = Suc (Suc (Suc (Suc (Suc (Suc (Suc 0))))))"
    by simp
  have c: "strncmp (''success,'' @ rest) ''success'' (Suc (Suc (Suc (Suc (Suc (Suc (Suc 0))))))) = 0"
    by simp
  show ?thesis
    by (simp only: status_match.simps n l c Let_def option.case) simp
qed

text \<open>
  C2.  The criteria are documented as a list of which any one may be met, so exit
  status 4 should match \<open>success,4\<close>.  Every path through the loop body returns, so
  only the first token is ever looked at: the result for \<open>success,4\<close> and status 4
  is 0 (no match), although the token \<open>4\<close> alone matches status 4.
\<close>

theorem status_match_first_token_only:
  "status_match 4 (Some ''success,4'') = 0 \<and> status_match 4 (Some ''4'') = 1"
  by (simp add: strlen_def isdigit_def at_end_def strtol_def isspace_def NUL_def
      digits_val_def digit_val_def LONG_MAX_def LONG_MIN_def)

text \<open>
  C3.  A token that is none of the four words, an integer or a range should be
  refused with -1.  The words are compared over the length of the token only, so every
  prefix of a word is taken for the word: \<open>t\<close> and the empty token match status 0
  as \<open>success\<close> does, and \<open>f\<close> matches status 3 as \<open>fail\<close> does.  A token that
  is not such a prefix, like \<open>abc\<close>, is refused.
\<close>

theorem status_match_accepts_prefix:
  "status_match 0 (Some ''t'') = 1 \<and> status_match 0 (Some '''') = 1
   \<and> status_match 3 (Some ''f'') = 1 \<and> status_match 4 (Some ''abc'') = - 1"
  by (simp add: strlen_def isdigit_def)

section \<open>Properties of \<open>pump\<close>\<close>

lemma arm_exit:
  "i \<in> set is \<Longrightarrow> read_closed (ps ! i) \<Longrightarrow> exit_on_close (ps ! i) \<Longrightarrow>
   fst (arm is ps fs stay) = False"
  by (induction "is" arbitrary: fs stay) (auto simp: Let_def)

lemma arm_idle:
  "\<forall>i\<in>set is. read_closed (ps ! i) \<and> write_closed (ps ! i) \<Longrightarrow> \<not> stay \<Longrightarrow>
   fst (arm is ps fs stay) = False"
  by (induction "is" arbitrary: fs stay) (auto simp: Let_def)

lemma pump_leaves:
  "fst (arm [0..<PUMPS] (pumps st) (fds st) False) = False \<Longrightarrow>
   pump env st = Some (0, st\<lparr>fds := snd (arm [0..<PUMPS] (pumps st) (fds st) False)\<rparr>, env)"
  by (cases "arm [0..<PUMPS] (pumps st) (fds st) False") (simp add: pump.simps)

text \<open>
  C9.  When \<open>pump\<close> is at the head of its loop and some stream has both
  \<open>read_closed\<close> and \<open>exit_on_close\<close> set, it returns 0 at once: no event of the
  environment is consumed, so \<open>poll\<close> is not called, and nothing but the
  \<open>events\<close> fields of the \<open>pollfd\<close> array has changed, whatever the other stream
  holds.
\<close>

theorem pump_exit_on_close:
  assumes "i < PUMPS" and "read_closed (pumps st ! i)" and "exit_on_close (pumps st ! i)"
  shows "\<exists>fs. pump env st = Some (0, st\<lparr>fds := fs\<rparr>, env)"
proof -
  from assms(1) have "i \<in> set [0..<PUMPS]" by simp
  then have "fst (arm [0..<PUMPS] (pumps st) (fds st) False) = False"
    using assms(2,3) by (rule arm_exit)
  then have "pump env st =
      Some (0, st\<lparr>fds := snd (arm [0..<PUMPS] (pumps st) (fds st) False)\<rparr>, env)"
    by (rule pump_leaves)
  then show ?thesis by blast
qed

theorem pump_exit_on_close_witness:
  "STDOUT_FD < PUMPS \<and> read_closed (pumps (pump_input after_first) ! STDOUT_FD)
   \<and> exit_on_close (pumps (pump_input after_first) ! STDOUT_FD)
   \<and> len (pumps (pump_input after_first) ! STDIN_FD)
       > offset (pumps (pump_input after_first) ! STDIN_FD)
   \<and> (\<exists>fs. pump first_io (pump_input after_first)
            = Some (0, (pump_input after_first)\<lparr>fds := fs\<rparr>, first_io))"
proof -
  have a: "STDOUT_FD < PUMPS"
    by (simp add: pump_consts)
  have b: "read_closed (pumps (pump_input after_first) ! STDOUT_FD)"
    by (simp add: pump_input_def after_first_def pump_consts)
  have c: "exit_on_close (pumps (pump_input after_first) ! STDOUT_FD)"
    by (simp add: pump_input_def after_first_def pump_consts)
  have d: "len (pumps (pump_input after_first) ! STDIN_FD)
       > offset (pumps (pump_input after_first) ! STDIN_FD)"
    by (simp add: pump_input_def after_first_def pump_consts)
  from pump_exit_on_close [OF a b c, of first_io] a b c d show ?thesis by blast
qed

text \<open>
  C10.  When both streams already have \<open>read_closed\<close> and \<open>write_closed\<close> set,
  \<open>pump\<close> returns 0 at once: no event of the environment is consumed, so it does
  not wait in \<open>poll\<close>, and the streams (buffer, length, offset and flags) are as
  they were.
\<close>

theorem pump_all_closed:
  assumes "\<forall>i<PUMPS. read_closed (pumps st ! i) \<and> write_closed (pumps st ! i)"
  shows "\<exists>fs. pump env st = Some (0, st\<lparr>fds := fs\<rparr>, env)"
proof -
  from assms
  have "\<forall>i\<in>set [0..<PUMPS]. read_closed (pumps st ! i) \<and> write_closed (pumps st ! i)"
    by simp
  then have "fst (arm [0..<PUMPS] (pumps st) (fds st) False) = False"
    by (rule arm_idle) simp
  then have "pump env st =
      Some (0, st\<lparr>fds := snd (arm [0..<PUMPS] (pumps st) (fds st) False)\<rparr>, env)"
    by (rule pump_leaves)
  then show ?thesis by blast
qed

theorem pump_all_closed_witness:
  "read_closed (pumps closed_state ! 0) \<and> write_closed (pumps closed_state ! 0)
   \<and> read_closed (pumps closed_state ! 1) \<and> write_closed (pumps closed_state ! 1)
   \<and> (\<exists>fs. pump first_io closed_state = Some (0, closed_state\<lparr>fds := fs\<rparr>, first_io))"
proof -
  have a: "read_closed (pumps closed_state ! 0) \<and> write_closed (pumps closed_state ! 0)"
    by (simp add: closed_state_def)
  have b: "read_closed (pumps closed_state ! 1) \<and> write_closed (pumps closed_state ! 1)"
    by (simp add: closed_state_def)
  have "\<forall>i<PUMPS. read_closed (pumps closed_state ! i) \<and> write_closed (pumps closed_state ! i)"
    using a b by (auto simp: PUMPS_def less_Suc_eq numeral_2_eq_2)
  from pump_all_closed [OF this, of first_io] a b show ?thesis by blast
qed

subsection \<open>One turn of the loop and \<open>write_closed\<close>\<close>

lemma on_pollin_keeps:
  "on_pollin ev i st = (r, st') \<Longrightarrow> i < length (pumps st) \<Longrightarrow>
   write_closed (pumps st' ! i) = write_closed (pumps st ! i)"
  by (auto simp: on_pollin_def Let_def split: if_splits read_result.splits)

lemma on_hangup_keeps:
  "i < length (pumps st) \<Longrightarrow>
   write_closed (pumps (on_hangup i st) ! i) = write_closed (pumps st ! i)"
  by (simp add: on_hangup_def)

lemma on_pollout_closes:
  "on_pollout ev i st = (r, st') \<Longrightarrow> i < length (pumps st) \<Longrightarrow>
   write_closed (pumps st' ! i) \<Longrightarrow> \<not> write_closed (pumps st ! i) \<Longrightarrow>
   read_closed (pumps st' ! i) \<and> offset (pumps st' ! i) = len (pumps st' ! i)"
  by (auto simp: on_pollout_def Let_def split: if_splits write_result.splits)

lemma on_sink_error_closes:
  "i < length (pumps st) \<Longrightarrow> write_closed (pumps (on_sink_error i st) ! i) \<Longrightarrow>
   write_closed (pumps st ! i)
   \<or> revents (fds st ! OFFSET i WRITE_FD) \<inter> {POLLERR, POLLNVAL} \<noteq> {}"
  by (auto simp: on_sink_error_def split: if_splits)

lemma on_sink_error_same:
  "i < length (pumps st) \<Longrightarrow>
   read_closed (pumps (on_sink_error i st) ! i) = read_closed (pumps st ! i) \<and>
   offset (pumps (on_sink_error i st) ! i) = offset (pumps st ! i) \<and>
   len (pumps (on_sink_error i st) ! i) = len (pumps st ! i)"
  by (auto simp: on_sink_error_def)

lemma on_pollin_frame:
  "on_pollin ev i st = (r, st') \<Longrightarrow> j \<noteq> i \<Longrightarrow> pumps st' ! j = pumps st ! j"
  by (auto simp: on_pollin_def Let_def split: if_splits read_result.splits)

lemma on_hangup_frame: "j \<noteq> i \<Longrightarrow> pumps (on_hangup i st) ! j = pumps st ! j"
  by (simp add: on_hangup_def)

lemma on_pollout_frame:
  "on_pollout ev i st = (r, st') \<Longrightarrow> j \<noteq> i \<Longrightarrow> pumps st' ! j = pumps st ! j"
  by (auto simp: on_pollout_def Let_def split: if_splits write_result.splits)

lemma on_sink_error_frame: "j \<noteq> i \<Longrightarrow> pumps (on_sink_error i st) ! j = pumps st ! j"
  by (simp add: on_sink_error_def)

lemma on_pollin_fds:
  "on_pollin ev i st = (r, st') \<Longrightarrow>
   fds st' = fds st \<and> length (pumps st') = length (pumps st)"
  by (auto simp: on_pollin_def Let_def split: if_splits read_result.splits)

lemma on_hangup_fds:
  "fds (on_hangup i st) = fds st \<and> length (pumps (on_hangup i st)) = length (pumps st)"
  by (simp add: on_hangup_def)

lemma on_pollout_fds:
  "on_pollout ev i st = (r, st') \<Longrightarrow>
   fds st' = fds st \<and> length (pumps st') = length (pumps st)"
  by (auto simp: on_pollout_def Let_def split: if_splits write_result.splits)

lemma on_sink_error_fds:
  "fds (on_sink_error i st) = fds st
   \<and> length (pumps (on_sink_error i st)) = length (pumps st)"
  by (simp add: on_sink_error_def)

text \<open>The three ways through the body of the second loop.\<close>

lemma serve_one_cases:
  assumes "serve_one ev i st = (r, st')"
  obtains (rd_err) "on_pollin ev i st = (r, st')"
  | (wr_err) st1 where "on_pollin ev i st = (0, st1)"
      and "on_pollout ev i (on_hangup i st1) = (r, st')"
  | (served) st1 st2 where "on_pollin ev i st = (0, st1)"
      and "on_pollout ev i (on_hangup i st1) = (0, st2)" and "st' = on_sink_error i st2"
proof -
  obtain r1 st1 where a: "on_pollin ev i st = (r1, st1)"
    by (cases "on_pollin ev i st")
  obtain r2 st2 where b: "on_pollout ev i (on_hangup i st1) = (r2, st2)"
    by (cases "on_pollout ev i (on_hangup i st1)")
  show thesis
  proof (cases "r1 = 0")
    case False
    with assms a have "on_pollin ev i st = (r, st')" by (simp add: serve_one_def)
    then show thesis by (rule rd_err)
  next
    case r1: True
    show thesis
    proof (cases "r2 = 0")
      case False
      with assms a b r1 have "on_pollout ev i (on_hangup i st1) = (r, st')"
        by (simp add: serve_one_def)
      with a r1 show thesis by (auto intro: wr_err)
    next
      case True
      with assms a b r1 have "st' = on_sink_error i st2" by (simp add: serve_one_def)
      with a b r1 True show thesis by (auto intro: served)
    qed
  qed
qed

lemma serve_one_frame:
  assumes "serve_one ev i st = (r, st')" and "j \<noteq> i"
  shows "pumps st' ! j = pumps st ! j"
  using assms(1)
proof (cases rule: serve_one_cases)
  case rd_err
  then show ?thesis using assms(2) by (rule on_pollin_frame)
next
  case (wr_err st1)
  then show ?thesis
    using assms(2) by (simp add: on_pollin_frame on_pollout_frame on_hangup_frame)
next
  case (served st1 st2)
  then show ?thesis
    using assms(2)
    by (simp add: on_pollin_frame on_pollout_frame on_hangup_frame on_sink_error_frame)
qed

lemma serve_one_fds:
  assumes "serve_one ev i st = (r, st')"
  shows "fds st' = fds st \<and> length (pumps st') = length (pumps st)"
  using assms
proof (cases rule: serve_one_cases)
  case rd_err
  then show ?thesis by (rule on_pollin_fds)
next
  case (wr_err st1)
  then show ?thesis
    using on_pollin_fds [of ev i st 0 st1] on_pollout_fds [of ev i "on_hangup i st1" r st']
      on_hangup_fds [of i st1] by simp
next
  case (served st1 st2)
  then show ?thesis
    using on_pollin_fds [of ev i st 0 st1] on_pollout_fds [of ev i "on_hangup i st1" 0 st2]
      on_hangup_fds [of i st1] on_sink_error_fds [of i st2] by simp
qed

lemma serve_one_closes:
  assumes "serve_one ev i st = (r, st')" and "i < length (pumps st)"
    and "\<not> write_closed (pumps st ! i)" and "write_closed (pumps st' ! i)"
  shows "(read_closed (pumps st' ! i) \<and> offset (pumps st' ! i) = len (pumps st' ! i))
         \<or> revents (fds st ! OFFSET i WRITE_FD) \<inter> {POLLERR, POLLNVAL} \<noteq> {}"
  using assms(1)
proof (cases rule: serve_one_cases)
  case rd_err
  from on_pollin_keeps [OF rd_err assms(2)] assms(3,4) show ?thesis by simp
next
  case (wr_err st1)
  from on_pollin_fds [OF wr_err(1)] assms(2) have i1: "i < length (pumps st1)" by simp
  then have i2: "i < length (pumps (on_hangup i st1))" by (simp add: on_hangup_fds)
  have "\<not> write_closed (pumps (on_hangup i st1) ! i)"
    using on_pollin_keeps [OF wr_err(1) assms(2)] on_hangup_keeps [OF i1] assms(3) by simp
  from on_pollout_closes [OF wr_err(2) i2 assms(4) this] show ?thesis by simp
next
  case (served st1 st2)
  from on_pollin_fds [OF served(1)] assms(2) have i1: "i < length (pumps st1)" by simp
  then have i2: "i < length (pumps (on_hangup i st1))" by (simp add: on_hangup_fds)
  with on_pollout_fds [OF served(2)] have i3: "i < length (pumps st2)" by simp
  have open2: "\<not> write_closed (pumps (on_hangup i st1) ! i)"
    using on_pollin_keeps [OF served(1) assms(2)] on_hangup_keeps [OF i1] assms(3) by simp
  have same_fds: "fds st2 = fds st"
    using on_pollin_fds [OF served(1)] on_pollout_fds [OF served(2)] on_hangup_fds [of i st1]
    by simp
  from on_sink_error_closes [OF i3] assms(4) served(3)
  have "write_closed (pumps st2 ! i)
        \<or> revents (fds st2 ! OFFSET i WRITE_FD) \<inter> {POLLERR, POLLNVAL} \<noteq> {}"
    by simp
  then show ?thesis
  proof
    assume "write_closed (pumps st2 ! i)"
    from on_pollout_closes [OF served(2) i2 this open2] on_sink_error_same [OF i3] served(3)
    show ?thesis by simp
  next
    assume "revents (fds st2 ! OFFSET i WRITE_FD) \<inter> {POLLERR, POLLNVAL} \<noteq> {}"
    with same_fds show ?thesis by simp
  qed
qed

lemma serve_frame:
  "serve ev is st = (r, st') \<Longrightarrow> i \<notin> set is \<Longrightarrow> pumps st' ! i = pumps st ! i"
proof (induction "is" arbitrary: st)
  case Nil
  then show ?case by simp
next
  case (Cons j js)
  obtain r1 st1 where s1: "serve_one ev j st = (r1, st1)"
    by (cases "serve_one ev j st")
  from Cons.prems(2) have ne: "i \<noteq> j" "i \<notin> set js" by auto
  from serve_one_frame [OF s1 ne(1)] have f: "pumps st1 ! i = pumps st ! i" .
  show ?case
  proof (cases "r1 = 0")
    case True
    with Cons.prems(1) s1 have "serve ev js st1 = (r, st')" by simp
    from Cons.IH [OF this ne(2)] f show ?thesis by simp
  next
    case False
    with Cons.prems(1) s1 have "st' = st1" by simp
    with f show ?thesis by simp
  qed
qed

lemma serve_closes:
  assumes "serve ev is st = (r, st')" and "distinct is" and "i < length (pumps st)"
    and "\<not> write_closed (pumps st ! i)" and "write_closed (pumps st' ! i)"
  shows "(read_closed (pumps st' ! i) \<and> offset (pumps st' ! i) = len (pumps st' ! i))
         \<or> revents (fds st ! OFFSET i WRITE_FD) \<inter> {POLLERR, POLLNVAL} \<noteq> {}"
  using assms
proof (induction "is" arbitrary: st)
  case Nil
  then show ?case by simp
next
  case (Cons j js)
  obtain r1 st1 where s1: "serve_one ev j st = (r1, st1)"
    by (cases "serve_one ev j st")
  from serve_one_fds [OF s1]
  have same: "fds st1 = fds st" "length (pumps st1) = length (pumps st)" by simp_all
  show ?case
  proof (cases "j = i")
    case True
    with Cons.prems(2) have "i \<notin> set js" by simp
    have "pumps st' ! i = pumps st1 ! i"
    proof (cases "r1 = 0")
      case True
      with Cons.prems(1) s1 have "serve ev js st1 = (r, st')" by simp
      then show ?thesis using \<open>i \<notin> set js\<close> by (rule serve_frame)
    next
      case False
      with Cons.prems(1) s1 show ?thesis by simp
    qed
    with Cons.prems(5) have "write_closed (pumps st1 ! i)" by simp
    from serve_one_closes [OF s1 [unfolded True] Cons.prems(3,4) this]
      \<open>pumps st' ! i = pumps st1 ! i\<close>
    show ?thesis by simp
  next
    case False
    then have keep: "pumps st1 ! i = pumps st ! i"
      using serve_one_frame [OF s1] by simp
    show ?thesis
    proof (cases "r1 = 0")
      case True
      with Cons.prems(1) s1 have rest: "serve ev js st1 = (r, st')" by simp
      from Cons.prems(2) have d: "distinct js" by simp
      from Cons.prems(3) same have l: "i < length (pumps st1)" by simp
      from Cons.prems(4) keep have o: "\<not> write_closed (pumps st1 ! i)" by simp
      from Cons.IH [OF rest d l o Cons.prems(5)] same show ?thesis by simp
    next
      case False
      with Cons.prems(1) s1 have "st' = st1" by simp
      with keep Cons.prems(4,5) show ?thesis by simp
    qed
  qed
qed

text \<open>
  C4.  The claim says that \<open>write_closed\<close> is set only once the source has ended and
  every captured byte is delivered.  The loop also sets it when \<open>poll\<close> reports
  \<open>POLLERR\<close> or \<open>POLLNVAL\<close> on the sink.  As amended: in every turn of the loop
  in which \<open>write_closed\<close> of a stream goes from unset to set, either the stream has
  \<open>read_closed\<close> set and \<open>offset\<close> equal to \<open>len\<close> at the end of the turn, or
  \<open>poll\<close> reported \<open>POLLERR\<close> or \<open>POLLNVAL\<close> on its sink in that turn.  The
  second \<open>for\<close> loop is the only part of \<open>pump\<close> that writes to the streams.
\<close>

theorem write_closed_when_drained_or_sink_error:
  assumes "serve ev [0..<PUMPS] st = (r, st')" and "i < length (pumps st)"
    and "\<not> write_closed (pumps st ! i)" and "write_closed (pumps st' ! i)"
  shows "(read_closed (pumps st' ! i) \<and> offset (pumps st' ! i) = len (pumps st' ! i))
         \<or> revents (fds st ! OFFSET i WRITE_FD) \<inter> {POLLERR, POLLNVAL} \<noteq> {}"
proof -
  have "distinct [0..<PUMPS]" by simp
  from serve_closes [OF assms(1) this assms(2,3,4)] show ?thesis .
qed

theorem write_closed_when_drained_or_sink_error_witness:
  "fst (serve (quiet\<lparr>wr := (\<lambda>i. WriteAccept 1)\<rparr>) [0..<PUMPS] last_byte_state) = 0
   \<and> STDIN_FD < length (pumps last_byte_state)
   \<and> \<not> write_closed (pumps last_byte_state ! STDIN_FD)
   \<and> write_closed (pumps (snd (serve (quiet\<lparr>wr := (\<lambda>i. WriteAccept 1)\<rparr>) [0..<PUMPS]
        last_byte_state)) ! STDIN_FD)
   \<and> read_closed (pumps (snd (serve (quiet\<lparr>wr := (\<lambda>i. WriteAccept 1)\<rparr>) [0..<PUMPS]
        last_byte_state)) ! STDIN_FD)
   \<and> offset (pumps (snd (serve (quiet\<lparr>wr := (\<lambda>i. WriteAccept 1)\<rparr>) [0..<PUMPS]
        last_byte_state)) ! STDIN_FD) = 1
   \<and> revents (fds last_byte_state ! OFFSET STDIN_FD WRITE_FD) \<inter> {POLLERR, POLLNVAL} = {}"
proof -
  let ?ev = "quiet\<lparr>wr := (\<lambda>i. WriteAccept 1)\<rparr>"
  let ?st' = "snd (serve ?ev [0..<PUMPS] last_byte_state)"
  have f0: "fst (serve ?ev [0..<PUMPS] last_byte_state) = 0"
    by (simp add: last_byte_state_def quiet_def pump_consts pump_steps)
  then have run: "serve ?ev [0..<PUMPS] last_byte_state = (0, ?st')"
    by (simp add: prod_eq_iff)
  have a: "STDIN_FD < length (pumps last_byte_state)"
    by (simp add: last_byte_state_def STDIN_FD_def)
  have b: "\<not> write_closed (pumps last_byte_state ! STDIN_FD)"
    by (simp add: last_byte_state_def STDIN_FD_def)
  have c: "write_closed (pumps ?st' ! STDIN_FD)"
    by (simp add: last_byte_state_def quiet_def pump_consts pump_steps)
  have d: "revents (fds last_byte_state ! OFFSET STDIN_FD WRITE_FD) \<inter> {POLLERR, POLLNVAL} = {}"
    by (simp add: last_byte_state_def pump_consts)
  have e: "len (pumps ?st' ! STDIN_FD) = 1"
    by (simp add: last_byte_state_def quiet_def pump_consts pump_steps)
  from write_closed_when_drained_or_sink_error [OF run a b c] d
  have "read_closed (pumps ?st' ! STDIN_FD)
        \<and> offset (pumps ?st' ! STDIN_FD) = len (pumps ?st' ! STDIN_FD)"
    by simp
  with f0 a b c d e show ?thesis by simp
qed

lemma sink_error_pump:
  "pump sink_error_io (pump_input defaults) =
   Some (0,
     \<lparr>pumps =
        [\<lparr>base = [0x58], len = 1, offset = 0, read_closed = False,
           write_closed = True, exit_on_close = False, send_eof = False\<rparr>,
         \<lparr>base = [], len = 0, offset = 0, read_closed = True,
           write_closed = True, exit_on_close = True, send_eof = True\<rparr>],
      fds =
        [\<lparr>events = {POLLIN}, revents = {}\<rparr>, \<lparr>events = {}, revents = {}\<rparr>,
         \<lparr>events = {}, revents = {POLLHUP}\<rparr>, \<lparr>events = {}, revents = {}\<rparr>],
      sent = [[], []], msgs = []\<rparr>, [])"
  by (simp add: pump.simps sink_error_io_def quiet_def defaults_def start_def
      pump_input_def no_pump_def pump_consts pump_steps)

text \<open>
  The claim C4 as stated fails: \<open>main\<close> starts \<open>pump\<close> with \<open>write_closed\<close> of
  the first stream unset; the byte 0x58 is captured, \<open>poll\<close> reports an error on the
  pipe to the child, and \<open>pump\<close> returns with \<open>write_closed\<close> set although
  \<open>read_closed\<close> is unset and \<open>offset\<close> is 0 with \<open>len\<close> 1: the byte was never
  written.
\<close>

theorem write_closed_before_drained:
  "\<not> write_closed (pumps (pump_input defaults) ! STDIN_FD)
   \<and> map_option (pumps \<circ> fst \<circ> snd) (pump sink_error_io (pump_input defaults)) =
       Some [\<lparr>base = [0x58], len = 1, offset = 0, read_closed = False,
               write_closed = True, exit_on_close = False, send_eof = False\<rparr>,
             \<lparr>base = [], len = 0, offset = 0, read_closed = True,
               write_closed = True, exit_on_close = True, send_eof = True\<rparr>]
   \<and> map_option (sent \<circ> fst \<circ> snd) (pump sink_error_io (pump_input defaults))
       = Some [[], []]"
  by (simp add: sink_error_pump)
    (simp add: pump_input_def defaults_def start_def no_pump_def pump_consts)

subsection \<open>The streams stay well formed\<close>

lemma update_ok:
  assumes "list_all stream_ok ps"
    and "i < length ps \<Longrightarrow> stream_ok (ps ! i) \<Longrightarrow> stream_ok p'"
  shows "list_all stream_ok (ps[i := p'])"
proof (cases "i < length ps")
  case True
  with assms show ?thesis by (auto simp: list_all_length nth_list_update)
next
  case False
  then have "ps[i := p'] = ps" by (simp add: list_update_beyond)
  with assms(1) show ?thesis by simp
qed

lemma on_pollin_ok:
  "on_pollin ev i st = (r, st') \<Longrightarrow> list_all stream_ok (pumps st) \<Longrightarrow> list_all stream_ok (pumps st')"
  by (auto simp: on_pollin_def Let_def stream_ok_def intro!: update_ok
      split: if_splits read_result.splits)

lemma on_pollout_ok:
  "on_pollout ev i st = (r, st') \<Longrightarrow> list_all stream_ok (pumps st) \<Longrightarrow> list_all stream_ok (pumps st')"
proof -
  have step: "stream_ok p \<Longrightarrow>
      stream_ok (p\<lparr>offset := offset p + min k (len p - offset p)\<rparr>) \<and>
      stream_ok (p\<lparr>offset := len p, write_closed := True\<rparr>)"
    for p k
    by (auto simp: stream_ok_def)
  assume "on_pollout ev i st = (r, st')" and "list_all stream_ok (pumps st)"
  then show ?thesis
    by (auto simp: on_pollout_def Let_def step intro!: update_ok
        split: if_splits write_result.splits)
qed

lemma on_hangup_ok:
  "list_all stream_ok (pumps st) \<Longrightarrow> list_all stream_ok (pumps (on_hangup i st))"
  by (auto simp: on_hangup_def stream_ok_def intro!: update_ok)

lemma on_sink_error_ok:
  "list_all stream_ok (pumps st) \<Longrightarrow> list_all stream_ok (pumps (on_sink_error i st))"
  by (auto simp: on_sink_error_def stream_ok_def intro!: update_ok)

lemma serve_one_ok:
  assumes "serve_one ev i st = (r, st')" and "list_all stream_ok (pumps st)"
  shows "list_all stream_ok (pumps st')"
  using assms(1)
proof (cases rule: serve_one_cases)
  case rd_err
  then show ?thesis using assms(2) by (rule on_pollin_ok)
next
  case (wr_err st1)
  from on_pollin_ok [OF wr_err(1) assms(2)] have "list_all stream_ok (pumps (on_hangup i st1))"
    by (rule on_hangup_ok)
  with wr_err(2) show ?thesis by (rule on_pollout_ok)
next
  case (served st1 st2)
  from on_pollin_ok [OF served(1) assms(2)] have "list_all stream_ok (pumps (on_hangup i st1))"
    by (rule on_hangup_ok)
  with served(2) have "list_all stream_ok (pumps st2)" by (rule on_pollout_ok)
  with served(3) show ?thesis by (simp add: on_sink_error_ok)
qed

lemma serve_ok:
  "serve ev is st = (r, st') \<Longrightarrow> list_all stream_ok (pumps st) \<Longrightarrow> list_all stream_ok (pumps st')"
proof (induction "is" arbitrary: st)
  case Nil
  then show ?case by simp
next
  case (Cons j js)
  obtain r1 st1 where s1: "serve_one ev j st = (r1, st1)"
    by (cases "serve_one ev j st")
  from serve_one_ok [OF s1 Cons.prems(2)] have ok1: "list_all stream_ok (pumps st1)" .
  show ?case
  proof (cases "r1 = 0")
    case True
    with Cons.prems(1) s1 have "serve ev js st1 = (r, st')" by simp
    then show ?thesis using ok1 by (rule Cons.IH)
  next
    case False
    with Cons.prems(1) s1 ok1 show ?thesis by simp
  qed
qed

lemma pump_ok:
  "pump env st = Some (r, st', rest) \<Longrightarrow> list_all stream_ok (pumps st) \<Longrightarrow> list_all stream_ok (pumps st')"
proof (induction env st rule: pump.induct)
  case (1 env st)
  obtain stay fs where a: "arm [0..<PUMPS] (pumps st) (fds st) False = (stay, fs)"
    by (cases "arm [0..<PUMPS] (pumps st) (fds st) False")
  show ?case
  proof (cases stay)
    case False
    with a "1.prems" show ?thesis by (auto simp: pump.simps)
  next
    case True
    show ?thesis
    proof (cases env)
      case Nil
      with a True "1.prems" show ?thesis by (simp add: pump.simps)
    next
      case (Cons ev env')
      obtain n fs' where p: "poll ev fs = (n, fs')" by (cases "poll ev fs")
      show ?thesis
      proof (cases "n < 0")
        case neg: True
        with a True Cons p "1.prems" show ?thesis by (auto simp: pump.simps)
      next
        case nonneg: False
        obtain r1 st1 where s: "serve ev [0..<PUMPS] (st\<lparr>fds := fs'\<rparr>) = (r1, st1)"
          by (cases "serve ev [0..<PUMPS] (st\<lparr>fds := fs'\<rparr>)")
        from serve_ok [OF s] "1.prems"(2) have ok1: "list_all stream_ok (pumps st1)" by simp
        show ?thesis
        proof (cases "r1 = 0")
          case False
          with a True Cons p nonneg s "1.prems"(1) ok1 show ?thesis by (auto simp: pump.simps)
        next
          case r0: True
          with a True Cons p nonneg s "1.prems"(1) have "pump env' st1 = Some (r, st', rest)"
            by (simp add: pump.simps)
          from "1.IH" [OF a [symmetric] _ Cons p [symmetric] _ s [symmetric] _ this ok1] True nonneg r0
          show ?thesis by simp
        qed
      qed
    qed
  qed
qed

lemma pump_input_ok:
  "list_all stream_ok (streams st) \<Longrightarrow> list_all stream_ok (pumps (pump_input st))"
  by (auto simp: pump_input_def Let_def stream_ok_def intro!: update_ok)

lemma start_ok: "list_all stream_ok (streams (start u w d t))"
  by (simp add: start_def no_pump_def stream_ok_def PUMPS_def replicate_numeral)

subsection \<open>What \<open>pump\<close> leaves behind when it returns 0\<close>

lemma nth_update_same_field:
  assumes "f x = f (xs ! i)"
  shows "f (xs[i := x] ! j) = f (xs ! j)"
proof (cases "i < length xs")
  case True
  with assms show ?thesis by (cases "i = j") simp_all
next
  case False
  then show ?thesis by (simp add: list_update_beyond)
qed

lemma on_pollin_eoc:
  "on_pollin ev i st = (r, st') \<Longrightarrow>
   exit_on_close (pumps st' ! j) = exit_on_close (pumps st ! j)"
  by (auto simp: on_pollin_def Let_def nth_update_same_field split: if_splits read_result.splits)

lemma on_hangup_eoc:
  "exit_on_close (pumps (on_hangup i st) ! j) = exit_on_close (pumps st ! j)"
  by (simp add: on_hangup_def nth_update_same_field)

lemma on_pollout_eoc:
  "on_pollout ev i st = (r, st') \<Longrightarrow>
   exit_on_close (pumps st' ! j) = exit_on_close (pumps st ! j)"
  by (auto simp: on_pollout_def Let_def nth_update_same_field split: if_splits write_result.splits)

lemma on_sink_error_eoc:
  "exit_on_close (pumps (on_sink_error i st) ! j) = exit_on_close (pumps st ! j)"
  by (simp add: on_sink_error_def nth_update_same_field)

lemma serve_one_eoc:
  assumes "serve_one ev i st = (r, st')"
  shows "exit_on_close (pumps st' ! j) = exit_on_close (pumps st ! j)"
  using assms
proof (cases rule: serve_one_cases)
  case rd_err
  then show ?thesis by (rule on_pollin_eoc)
next
  case (wr_err st1)
  then show ?thesis
    using on_pollin_eoc [of ev i st 0 st1 j] on_pollout_eoc [of ev i "on_hangup i st1" r st' j]
    by (simp add: on_hangup_eoc)
next
  case (served st1 st2)
  then show ?thesis
    using on_pollin_eoc [of ev i st 0 st1 j] on_pollout_eoc [of ev i "on_hangup i st1" 0 st2 j]
    by (simp add: on_hangup_eoc on_sink_error_eoc)
qed

lemma serve_eoc:
  "serve ev is st = (r, st') \<Longrightarrow>
   exit_on_close (pumps st' ! j) = exit_on_close (pumps st ! j)"
proof (induction "is" arbitrary: st)
  case Nil
  then show ?case by simp
next
  case (Cons k ks)
  obtain r1 st1 where s1: "serve_one ev k st = (r1, st1)"
    by (cases "serve_one ev k st")
  note e1 = serve_one_eoc [OF s1, of j]
  show ?case
  proof (cases "r1 = 0")
    case True
    with Cons.prems s1 have "serve ev ks st1 = (r, st')" by simp
    from Cons.IH [OF this] e1 show ?thesis by simp
  next
    case False
    with Cons.prems s1 e1 show ?thesis by simp
  qed
qed

lemma serve_fds:
  "serve ev is st = (r, st') \<Longrightarrow>
   fds st' = fds st \<and> length (pumps st') = length (pumps st)"
proof (induction "is" arbitrary: st)
  case Nil
  then show ?case by simp
next
  case (Cons k ks)
  obtain r1 st1 where s1: "serve_one ev k st = (r1, st1)"
    by (cases "serve_one ev k st")
  note f1 = serve_one_fds [OF s1]
  show ?case
  proof (cases "r1 = 0")
    case True
    with Cons.prems s1 have "serve ev ks st1 = (r, st')" by simp
    from Cons.IH [OF this] f1 show ?thesis by simp
  next
    case False
    with Cons.prems s1 f1 show ?thesis by simp
  qed
qed

lemma arm_stdout:
  assumes "fst (arm [0..<PUMPS] ps fs False) = False"
    and "\<not> exit_on_close (ps ! STDIN_FD)" and "exit_on_close (ps ! STDOUT_FD)"
  shows "read_closed (ps ! STDOUT_FD)"
  using assms
  by (auto simp: upt_0_2 PUMPS_def STDIN_FD_def STDOUT_FD_def Let_def split: if_splits)

lemma pump_returns_closed:
  "pump env st = Some (0, st', rest) \<Longrightarrow>
   \<not> exit_on_close (pumps st ! STDIN_FD) \<Longrightarrow> exit_on_close (pumps st ! STDOUT_FD) \<Longrightarrow>
   read_closed (pumps st' ! STDOUT_FD) \<and> exit_on_close (pumps st' ! STDOUT_FD)
   \<and> \<not> exit_on_close (pumps st' ! STDIN_FD) \<and> length (pumps st') = length (pumps st)"
proof (induction env st rule: pump.induct)
  case (1 env st)
  obtain stay fs where a: "arm [0..<PUMPS] (pumps st) (fds st) False = (stay, fs)"
    by (cases "arm [0..<PUMPS] (pumps st) (fds st) False")
  show ?case
  proof (cases stay)
    case False
    with a have "fst (arm [0..<PUMPS] (pumps st) (fds st) False) = False" by simp
    from arm_stdout [OF this "1.prems"(2,3)] a False "1.prems" show ?thesis
      by (auto simp: pump.simps)
  next
    case True
    show ?thesis
    proof (cases env)
      case Nil
      with a True "1.prems" show ?thesis by (simp add: pump.simps)
    next
      case (Cons ev env')
      obtain n fs' where p: "poll ev fs = (n, fs')" by (cases "poll ev fs")
      show ?thesis
      proof (cases "n < 0")
        case neg: True
        with a True Cons p "1.prems" show ?thesis by (auto simp: pump.simps)
      next
        case nonneg: False
        obtain r1 st1 where s: "serve ev [0..<PUMPS] (st\<lparr>fds := fs'\<rparr>) = (r1, st1)"
          by (cases "serve ev [0..<PUMPS] (st\<lparr>fds := fs'\<rparr>)")
        from serve_eoc [OF s] "1.prems"(2,3)
        have e: "\<not> exit_on_close (pumps st1 ! STDIN_FD)" "exit_on_close (pumps st1 ! STDOUT_FD)"
          by simp_all
        have l: "length (pumps st1) = length (pumps st)"
          using serve_fds [OF s] by simp
        show ?thesis
        proof (cases "r1 = 0")
          case False
          with a True Cons p nonneg s "1.prems"(1) show ?thesis by (auto simp: pump.simps)
        next
          case r0: True
          with a True Cons p nonneg s "1.prems"(1) have "pump env' st1 = Some (0, st', rest)"
            by (simp add: pump.simps)
          from "1.IH" [OF a [symmetric] _ Cons p [symmetric] _ s [symmetric] _ this e] True nonneg r0 l
          show ?thesis by simp
        qed
      qed
    qed
  qed
qed


section \<open>Properties of the retry loop\<close>

lemma hangup_pump:
  "\<exists>pst. pump hangup_io (pump_input (start u w d t)) = Some (0, pst, [])"
  by (simp add: pump.simps hangup_io_def quiet_def start_def pump_input_def no_pump_def
      pump_consts pump_steps)

text \<open>
  C7.  When the child of an attempt is reaped and was killed by signal \<open>n\<close>, the loop
  is left and \<open>main\<close> returns \<open>n + 128\<close>, which fits the eight bits of an exit
  code; the child of this attempt is the last one created, whatever the criteria, the
  number of attempts left and the attempts that could still follow.
\<close>

theorem signal_ends_run:
  assumes "times_left st \<noteq> 0" and "\<not> pipe_fails e" and "fork_res e = InParent"
    and "pump (io e) (pump_input st) = Some (0, pst, rest)"
    and "waitpid_loop (waits e) = Some (Reaped (WSignaled n))"
  shows "map_option status (main_loop (e # es) st) = Some (uint n + 128)
         \<and> map_option forks (main_loop (e # es) st) = Some (Suc (forks st))
         \<and> uint n + 128 < 256"
  using assms uint_lt2p [of n]
  by (simp add: main_loop.simps attempt_def decide_def after_pump_def)

theorem signal_ends_run_witness:
  "times_left (start (Some ''fail'') None 10 3) \<noteq> 0
   \<and> \<not> pipe_fails killed_try \<and> fork_res killed_try = InParent
   \<and> map_option fst (pump (io killed_try) (pump_input (start (Some ''fail'') None 10 3)))
       = Some 0
   \<and> waitpid_loop (waits killed_try) = Some (Reaped (WSignaled 9))
   \<and> map_option status (main_loop [killed_try, second_try] (start (Some ''fail'') None 10 3))
       = Some 137
   \<and> map_option forks (main_loop [killed_try, second_try] (start (Some ''fail'') None 10 3))
       = Some 1"
proof -
  let ?st = "start (Some ''fail'') None 10 3"
  have a: "times_left ?st \<noteq> 0" by (simp add: start_def)
  have b: "\<not> pipe_fails killed_try" by (simp add: killed_try_def)
  have c: "fork_res killed_try = InParent" by (simp add: killed_try_def)
  obtain pst where d: "pump (io killed_try) (pump_input ?st) = Some (0, pst, [])"
    using hangup_pump [of "Some ''fail''" None 10 3] by (auto simp: killed_try_def)
  have e: "waitpid_loop (waits killed_try) = Some (Reaped (WSignaled 9))"
    by (simp add: killed_try_def)
  have f: "forks ?st = 0" by (simp add: start_def)
  from signal_ends_run [OF a b c d e, of "[second_try]"] a b c d e f
  show ?thesis by simp
qed

text \<open>
  C8.  The claim says that a failed wait makes the process exit with an operating-system
  error code rather than the fixed failure code.  As amended: when \<open>waitpid\<close> fails
  with an error other than an interruption, the loop is left, no further child is
  created and \<open>main\<close> returns the fixed failure code \<open>EXIT_FAILURE\<close>, as for the
  other fatal errors.
\<close>

theorem wait_failure_exit_failure:
  assumes "times_left st \<noteq> 0" and "\<not> pipe_fails e" and "fork_res e = InParent"
    and "pump (io e) (pump_input st) = Some (0, pst, rest)"
    and "waitpid_loop (waits e) = Some WaitFailure"
  shows "map_option status (main_loop (e # es) st) = Some EXIT_FAILURE
         \<and> map_option forks (main_loop (e # es) st) = Some (Suc (forks st))"
  using assms by (simp add: main_loop.simps attempt_def decide_def after_pump_def)

theorem wait_failure_exit_failure_witness:
  "times_left defaults \<noteq> 0
   \<and> \<not> pipe_fails unreaped_try \<and> fork_res unreaped_try = InParent
   \<and> map_option fst (pump (io unreaped_try) (pump_input defaults)) = Some 0
   \<and> waitpid_loop (waits unreaped_try) = Some WaitFailure
   \<and> map_option status (main_loop [unreaped_try, second_try] defaults) = Some 1
   \<and> map_option forks (main_loop [unreaped_try, second_try] defaults) = Some 1"
proof -
  have a: "times_left defaults \<noteq> 0" by (simp add: defaults_def start_def)
  have b: "\<not> pipe_fails unreaped_try" by (simp add: unreaped_try_def)
  have c: "fork_res unreaped_try = InParent" by (simp add: unreaped_try_def)
  obtain pst where d: "pump (io unreaped_try) (pump_input defaults) = Some (0, pst, [])"
    using hangup_pump [of "Some ''success''" None 0 "- 1"]
    by (auto simp: unreaped_try_def defaults_def)
  have e: "waitpid_loop (waits unreaped_try) = Some WaitFailure"
    by (simp add: unreaped_try_def)
  have f: "forks defaults = 0" by (simp add: defaults_def start_def)
  from wait_failure_exit_failure [OF a b c d e, of "[second_try]"] a b c d e f
  show ?thesis by (simp add: EXIT_FAILURE_def)
qed

lemma unreaped_run:
  "map_option status (main_loop [unreaped_try] defaults) = Some EXIT_FAILURE"
proof -
  obtain pst where d: "pump hangup_io (pump_input defaults) = Some (0, pst, [])"
    using hangup_pump [of "Some ''success''" None 0 "- 1"] by (auto simp: defaults_def)
  have "times_left defaults \<noteq> 0" by (simp add: defaults_def start_def)
  with d show ?thesis
    by (simp add: main_loop.simps attempt_def decide_def after_pump_def unreaped_try_def)
qed

text \<open>
  The claim C8 as stated fails: with the default options and a child that cannot be
  reaped, \<open>main\<close> returns \<open>EXIT_FAILURE\<close>, which is 1 and not the operating-system
  error code \<open>EX_OSERR\<close>, which is 71.
\<close>

theorem wait_failure_not_oserr:
  "map_option status (main_loop [unreaped_try] defaults) = Some 1
   \<and> map_option status (main_loop [unreaped_try] defaults) \<noteq> Some EX_OSERR"
  by (simp add: unreaped_run EXIT_FAILURE_def EX_OSERR_def)

subsection \<open>Every retry\<close>

text \<open>
  When an attempt ends in a retry, the second stream is left with \<open>read_closed\<close>
  set, and the pump of the next attempt returns 0 at once whatever the new child does:
  no event is consumed.  This holds from the initial state of \<open>main\<close> on, where
  there are two streams and \<open>exit_on_close\<close> of the first is unset.
\<close>

lemma retry_state:
  assumes "attempt e st = (Continue, st')" and "length (streams st) = PUMPS"
    and "\<not> exit_on_close (streams st ! STDIN_FD)"
  shows "read_closed (streams st' ! STDOUT_FD) \<and> length (streams st') = PUMPS
         \<and> \<not> exit_on_close (streams st' ! STDIN_FD)"
proof -
  have in0: "\<not> exit_on_close (pumps (pump_input st) ! STDIN_FD)"
    using assms(2,3) by (simp add: pump_input_def Let_def STDIN_FD_def STDOUT_FD_def)
  have in1: "exit_on_close (pumps (pump_input st) ! STDOUT_FD)"
    using assms(2) by (simp add: pump_input_def Let_def STDOUT_FD_def PUMPS_def)
  have inl: "length (pumps (pump_input st)) = PUMPS"
    using assms(2) by (simp add: pump_input_def Let_def)
  from assms(1) obtain pst rest w where
    p: "pump (io e) (pump_input st) = Some (0, pst, rest)"
    and d: "decide w ((after_pump st pst)\<lparr>streams := (streams (after_pump st pst))[STDIN_FD :=
              (streams (after_pump st pst) ! STDIN_FD)\<lparr>offset := 0\<rparr>]\<rparr>) = (Continue, st')"
    by (auto simp: attempt_def Let_def split: if_splits fork_result.splits option.splits)
  from pump_returns_closed [OF p in0 in1] inl
  have c: "read_closed (pumps pst ! STDOUT_FD)" "\<not> exit_on_close (pumps pst ! STDIN_FD)"
    "length (pumps pst) = PUMPS" by simp_all
  from d have "streams st' = (pumps pst)[STDIN_FD := (pumps pst ! STDIN_FD)\<lparr>offset := 0\<rparr>]"
    by (auto simp: decide_def after_pump_def Let_def split: reaped.splits if_splits)
  with c show ?thesis by (simp add: STDIN_FD_def STDOUT_FD_def PUMPS_def)
qed

lemma retry_pump_returns_at_once:
  assumes "attempt e st = (Continue, st')" and "length (streams st) = PUMPS"
    and "\<not> exit_on_close (streams st ! STDIN_FD)"
  shows "\<exists>fs. pump env (pump_input st') = Some (0, (pump_input st')\<lparr>fds := fs\<rparr>, env)"
proof -
  from retry_state [OF assms]
  have "read_closed (pumps (pump_input st') ! STDOUT_FD)"
    "exit_on_close (pumps (pump_input st') ! STDOUT_FD)"
    by (simp_all add: pump_input_def Let_def STDOUT_FD_def PUMPS_def)
  moreover have "STDOUT_FD \<in> set [0..<PUMPS]" by (simp add: STDOUT_FD_def PUMPS_def)
  ultimately have "fst (arm [0..<PUMPS] (pumps (pump_input st')) (fds (pump_input st')) False) = False"
    by (simp add: arm_exit)
  from pump_leaves [OF this] show ?thesis by blast
qed

subsection \<open>A run with one retry\<close>

lemma first_pump:
  "pump first_io (pump_input defaults) =
   Some (0,
     \<lparr>pumps =
        [\<lparr>base = [0x58], len = 1, offset = 1, read_closed = False,
           write_closed = False, exit_on_close = False, send_eof = False\<rparr>,
         \<lparr>base = [0x41], len = 1, offset = 0, read_closed = True,
           write_closed = True, exit_on_close = True, send_eof = True\<rparr>],
      fds =
        [\<lparr>events = {POLLIN}, revents = {}\<rparr>, \<lparr>events = {}, revents = {POLLOUT}\<rparr>,
         \<lparr>events = {}, revents = {POLLHUP}\<rparr>, \<lparr>events = {}, revents = {}\<rparr>],
      sent = [[0x58], []], msgs = []\<rparr>, [])"
  by (simp add: pump.simps first_io_def quiet_def defaults_def start_def pump_input_def
      no_pump_def pump_consts pump_steps)

lemma first_attempt: "attempt first_try defaults = (Continue, after_first)"
  using first_pump
  by (simp add: attempt_def first_try_def after_pump_def decide_def stop_now_def
      status_match_success_1 after_first_def pump_consts defaults_def start_def
      del: status_match.simps)

lemma second_pump:
  "pump second_io (pump_input after_first) =
   Some (0, (pump_input after_first)\<lparr>fds :=
           [\<lparr>events = {POLLIN}, revents = {}\<rparr>, \<lparr>events = {POLLOUT}, revents = {}\<rparr>,
            \<lparr>events = {}, revents = {}\<rparr>, \<lparr>events = {}, revents = {}\<rparr>]\<rparr>, second_io)"
  by (simp add: pump.simps after_first_def pump_input_def pump_consts Let_def)

lemma second_attempt: "attempt second_try after_first = (Break, after_second)"
  using second_pump
  by (simp add: attempt_def second_try_def after_pump_def decide_def stop_now_def
      status_match_success_0 after_first_def after_second_def pump_consts pump_input_def
      del: status_match.simps)

lemma whole_run: "main_loop [first_try, second_try] defaults = Some after_second"
  by (simp add: main_loop.simps first_attempt second_attempt)
    (simp add: defaults_def start_def after_first_def)

text \<open>
  C1.  Before the pump of a new attempt, the flags and the write offset that the
  second stream keeps from the attempt before should be reset, so that the pump
  drains the pipe of the new child.  The loop resets \<open>offset\<close> of the first stream
  only.  In the run above the first attempt ends in a retry and leaves
  \<open>read_closed\<close> of the second stream set; the pump of the second attempt then
  returns 0 at once, with every event of the second child unconsumed and nothing
  written: the byte 0x42 that child prints is never read.
\<close>

theorem retry_keeps_output_stream_closed:
  "attempt first_try defaults = (Continue, after_first)
   \<and> read_closed (streams after_first ! STDOUT_FD)
   \<and> offset (streams after_first ! STDIN_FD) = 0
   \<and> map_option fst (pump second_io (pump_input after_first)) = Some 0
   \<and> map_option (snd \<circ> snd) (pump second_io (pump_input after_first)) = Some second_io
   \<and> map_option (pumps \<circ> fst \<circ> snd) (pump second_io (pump_input after_first))
       = Some (streams after_first)
   \<and> map_option (sent \<circ> fst \<circ> snd) (pump second_io (pump_input after_first))
       = Some [[], []]"
  by (simp add: first_attempt second_pump)
    (simp add: after_first_def pump_input_def pump_consts)

text \<open>
  C5.  Standard output should receive the captured output of the one attempt that
  meets the stop criterion.  In the run above the first child prints 0x41 and exits
  with 1, which does not meet \<open>success\<close>, and the second child exits with 0, which
  does.  Standard output receives 0x41, the output of the first child, which was
  written to standard error as well when that attempt was retried; the output of the
  second child is not captured.  This is the defect of C1.
\<close>

theorem stdout_gets_stale_capture:
  "main_loop [first_try, second_try] defaults = Some after_second
   \<and> status after_second = 0 \<and> forks after_second = 2
   \<and> stdout after_second = [0x41]
   \<and> stderr after_second = [Captured [0x41], Message (TryingAgain 1)]"
  by (simp add: whole_run) (simp add: after_second_def after_first_def)

text \<open>
  C6.  The bytes captured from the invoker's standard input should be replayed to the
  child of every later attempt.  After the first attempt the first stream does keep
  the captured byte 0x58 with \<open>offset\<close> rewound to 0, but in the run above the
  second child receives nothing on its standard input, because the pump of the second
  attempt returns before writing.  This is the defect of C1.
\<close>

theorem retry_replays_nothing:
  "attempt first_try defaults = (Continue, after_first)
   \<and> base (streams after_first ! STDIN_FD) = [0x58]
   \<and> len (streams after_first ! STDIN_FD) = 1
   \<and> offset (streams after_first ! STDIN_FD) = 0
   \<and> map_option child_stdin (main_loop [first_try, second_try] defaults)
       = Some [[0x58], []]"
  by (simp add: first_attempt whole_run)
    (simp add: after_second_def after_first_def pump_consts)

end
